theory Spec2Isabelle
  imports Complex_Main "HOL-Library.Sublist" "HOL-Library.Multiset"
begin

section \<open>The data model of \<^verbatim>\<open>.kiro/workflow.ts\<close>\<close>

text \<open>
  The interface \<^verbatim>\<open>DataRow\<close> declares four string fields and a boolean. The field
  \<^verbatim>\<open>id\<close> is named \<open>id_row\<close> here, since \<open>id\<close> is the identity function of HOL.
  JavaScript strings are modelled as \<^typ>\<open>string\<close>.
\<close>

record DataRow =
  id_row :: string
  name :: string
  category :: string
  timestamp :: string
  processed :: bool

text \<open>
  The exceptions of a run: \<^verbatim>\<open>JSON.parse\<close> throws a \<^verbatim>\<open>SyntaxError\<close>, reading a
  property of \<^verbatim>\<open>null\<close> or \<^verbatim>\<open>undefined\<close> throws a \<^verbatim>\<open>TypeError\<close>, and a
  call of the file system that fails (\<^verbatim>\<open>fs.writeFileSync\<close> on a path whose
  directory does not exist, say) throws an error of the host, here \<open>IOError\<close>.
\<close>

datatype error = SyntaxError | TypeError | IOError

subsection \<open>The insertion-ordered \<^verbatim>\<open>Map\<close> of JavaScript\<close>

text \<open>
  A \<^verbatim>\<open>Map\<close> iterates its entries in the order in which their keys were first
  inserted; \<^verbatim>\<open>set\<close> on a key that is present replaces the value and leaves the
  entry where it is. The model is the list of entries in iteration order. Keys are
  strings throughout, compared by their contents.
\<close>

type_synonym ('k, 'v) Map = "('k \<times> 'v) list"

fun Map_set :: "'k \<Rightarrow> 'v \<Rightarrow> ('k, 'v) Map \<Rightarrow> ('k, 'v) Map" where
  "Map_set k v [] = [(k, v)]"
| "Map_set k v ((k', v') # m) =
     (if k' = k then (k, v) # m else (k', v') # Map_set k v m)"

definition Map_has :: "'k \<Rightarrow> ('k, 'v) Map \<Rightarrow> bool" where
  "Map_has k m = (map_of m k \<noteq> None)"

text \<open>\<^verbatim>\<open>get\<close> returns \<^verbatim>\<open>undefined\<close>, here \<open>None\<close>, for a key that is absent.\<close>

definition Map_get :: "'k \<Rightarrow> ('k, 'v) Map \<Rightarrow> 'v option" where
  "Map_get k m = map_of m k"

text \<open>\<^verbatim>\<open>new Map(entries)\<close> inserts the entries one after the other, from the left.\<close>

definition new_Map :: "('k \<times> 'v) list \<Rightarrow> ('k, 'v) Map" where
  "new_Map entries = foldl (\<lambda>m (k, v). Map_set k v m) [] entries"

definition Map_values :: "('k, 'v) Map \<Rightarrow> 'v list" where
  "Map_values m = map snd m"

subsection \<open>Truthiness of strings\<close>

text \<open>
  A string is falsy exactly when it is empty. \<^verbatim>\<open>a && b\<close> is \<^verbatim>\<open>a\<close> when
  \<^verbatim>\<open>a\<close> is falsy and \<^verbatim>\<open>b\<close> otherwise; \<^verbatim>\<open>filter\<close> keeps an element when the
  value of the callback is truthy.
\<close>

definition truthy :: "string \<Rightarrow> bool" where
  "truthy s = (s \<noteq> [])"

definition js_and :: "string \<Rightarrow> string \<Rightarrow> string" where
  "js_and a b = (if truthy a then b else a)"

section \<open>\<^verbatim>\<open>cleanData\<close>\<close>

text \<open>
  \<^verbatim>\<open>const unique = Array.from(new Map(data.map(d => [d.id, d])).values());\<close>
\<close>

definition unique :: "DataRow list \<Rightarrow> DataRow list" where
  "unique data = Map_values (new_Map (map (\<lambda>d. (id_row d, d)) data))"

text \<open>
  \<^verbatim>\<open>const validated = unique.filter(row => row.id && row.name && row.category);\<close>
  The two calls of \<^verbatim>\<open>console.log\<close> have no effect on the result.
\<close>

definition cleanData :: "DataRow list \<Rightarrow> DataRow list" where
  "cleanData data =
     (let validated =
        filter (\<lambda>row. truthy (js_and (js_and (id_row row) (name row)) (category row)))
          (unique data)
      in validated)"

section \<open>\<^verbatim>\<open>organizeData\<close>\<close>

text \<open>
  One iteration of the loop over \<^verbatim>\<open>data\<close>: the bucket of the row's category is
  created empty when the map does not have it, then the row is pushed on the array
  that \<^verbatim>\<open>get\<close> returns. The arrays are owned by the map, so the push is a
  replacement of the value under the same key. The non-null assertion \<^verbatim>\<open>!\<close> is
  erased at run time: were \<^verbatim>\<open>get\<close> to return \<^verbatim>\<open>undefined\<close>, the call of
  \<^verbatim>\<open>push\<close> would throw a \<^verbatim>\<open>TypeError\<close>.
\<close>

definition organize_step ::
  "(string, DataRow list) Map \<Rightarrow> DataRow \<Rightarrow> error + (string, DataRow list) Map" where
  "organize_step organized row =
     (let organized1 =
        (if \<not> Map_has (category row) organized
         then Map_set (category row) [] organized else organized)
      in case Map_get (category row) organized1 of
           None \<Rightarrow> Inl TypeError
         | Some rows \<Rightarrow> Inr (Map_set (category row) (rows @ [row]) organized1))"

fun organize_loop ::
  "(string, DataRow list) Map \<Rightarrow> DataRow list \<Rightarrow> error + (string, DataRow list) Map" where
  "organize_loop organized [] = Inr organized"
| "organize_loop organized (row # data) =
     (case organize_step organized row of
        Inl e \<Rightarrow> Inl e
      | Inr organized' \<Rightarrow> organize_loop organized' data)"

definition organizeData :: "DataRow list \<Rightarrow> error + (string, DataRow list) Map" where
  "organizeData data = organize_loop [] data"

section \<open>\<^verbatim>\<open>convertToCSV\<close>\<close>

text \<open>\<^verbatim>\<open>Array.prototype.join\<close>: the elements with the separator between them.\<close>

fun join :: "string \<Rightarrow> string list \<Rightarrow> string" where
  "join sep [] = []"
| "join sep [x] = x"
| "join sep (x # y # ys) = x @ sep @ join sep (y # ys)"

text \<open>A boolean in a template literal is rendered as \<^verbatim>\<open>true\<close> or \<^verbatim>\<open>false\<close>.\<close>

definition String_of_bool :: "bool \<Rightarrow> string" where
  "String_of_bool b = (if b then ''true'' else ''false'')"

text \<open>
  The template literal of a data line,
  \<^verbatim>\<open>"${d.id}","${d.name}","${d.category}","${d.timestamp}",${d.processed}\<close>;
  \<open>CHR 0x22\<close> is the double quote and \<open>CHR 0x0A\<close> the line feed.
\<close>

definition csv_row :: "DataRow \<Rightarrow> string" where
  "csv_row d =
     [CHR 0x22] @ id_row d @ [CHR 0x22] @ '','' @
     [CHR 0x22] @ name d @ [CHR 0x22] @ '','' @
     [CHR 0x22] @ category d @ [CHR 0x22] @ '','' @
     [CHR 0x22] @ timestamp d @ [CHR 0x22] @ '','' @
     String_of_bool (processed d)"

definition convertToCSV :: "DataRow list \<Rightarrow> string" where
  "convertToCSV data =
     (let headers = ''ID,Name,Category,Timestamp,Processed'';
          rows = map csv_row data
      in join [CHR 0x0A] (headers # rows))"

section \<open>\<^verbatim>\<open>parseData\<close>\<close>

text \<open>
  The values that \<^verbatim>\<open>JSON.parse\<close> returns. An object is the list of its own
  properties; a number is a real, of which only the test for zero is used.
\<close>

datatype json =
    JNull
  | JBool bool
  | JNumber real
  | JString string
  | JArray "json list"
  | JObject "(string \<times> json) list"

text \<open>
  The rows that \<^verbatim>\<open>parseData\<close> builds. The parsed items have type \<^verbatim>\<open>any\<close>, so
  \<^verbatim>\<open>id\<close>, \<^verbatim>\<open>name\<close> and \<^verbatim>\<open>category\<close> hold whatever truthy value the
  item has there, a string or not.
\<close>

record ParsedRow =
  parsed_id :: json
  parsed_name :: json
  parsed_category :: json
  parsed_timestamp :: string
  parsed_processed :: bool

text \<open>
  Reading one of the properties \<^verbatim>\<open>id\<close>, \<^verbatim>\<open>name\<close>, \<^verbatim>\<open>category\<close> of an item:
  \<^verbatim>\<open>null\<close> throws, an object gives its own property or \<^verbatim>\<open>undefined\<close>
  (\<open>None\<close>), and a boolean, a number, a string or an array has none of the three.
\<close>

fun property :: "json \<Rightarrow> string \<Rightarrow> error + json option" where
  "property JNull p = Inl TypeError"
| "property (JObject ps) p = Inr (map_of ps p)"
| "property (JBool b) p = Inr None"
| "property (JNumber x) p = Inr None"
| "property (JString s) p = Inr None"
| "property (JArray xs) p = Inr None"

fun truthy_json :: "json \<Rightarrow> bool" where
  "truthy_json JNull = False"
| "truthy_json (JBool b) = b"
| "truthy_json (JNumber x) = (x \<noteq> 0)"
| "truthy_json (JString s) = (s \<noteq> [])"
| "truthy_json (JArray xs) = True"
| "truthy_json (JObject ps) = True"

text \<open>\<^verbatim>\<open>a || b\<close>, where \<^verbatim>\<open>a\<close> may be \<^verbatim>\<open>undefined\<close>.\<close>

definition js_or :: "json option \<Rightarrow> json \<Rightarrow> json" where
  "js_or a b = (case a of None \<Rightarrow> b | Some v \<Rightarrow> if truthy_json v then v else b)"

text \<open>The decimal digits of an array index, as a template literal renders it.\<close>

function decimal :: "nat \<Rightarrow> string" where
  "decimal n =
     (if n < 10 then [''0123456789'' ! n]
      else decimal (n div 10) @ [''0123456789'' ! (n mod 10)])"
  by pat_completeness auto
termination
  by (relation "measure (\<lambda>n. n)") auto

text \<open>
  The callback of \<^verbatim>\<open>items.map\<close>. The fields are evaluated in the order of the
  object literal; \<open>now idx\<close> is \<^verbatim>\<open>new Date().toISOString()\<close> as read for the
  item at index \<open>idx\<close>.
\<close>

definition make_row :: "(nat \<Rightarrow> string) \<Rightarrow> json \<Rightarrow> nat \<Rightarrow> error + ParsedRow" where
  "make_row now item idx =
     (case property item ''id'' of
        Inl e \<Rightarrow> Inl e
      | Inr i \<Rightarrow>
     (case property item ''name'' of
        Inl e \<Rightarrow> Inl e
      | Inr n \<Rightarrow>
     (case property item ''category'' of
        Inl e \<Rightarrow> Inl e
      | Inr c \<Rightarrow>
          Inr \<lparr>parsed_id = js_or i (JString (''row_'' @ decimal idx)),
               parsed_name = js_or n (JString ''Unknown''),
               parsed_category = js_or c (JString ''Uncategorized''),
               parsed_timestamp = now idx,
               parsed_processed = False\<rparr>)))"

text \<open>\<^verbatim>\<open>items.map\<close> from index \<open>idx\<close> on: the first exception ends it.\<close>

fun map_items :: "(nat \<Rightarrow> string) \<Rightarrow> json list \<Rightarrow> nat \<Rightarrow> error + ParsedRow list" where
  "map_items now [] idx = Inr []"
| "map_items now (item # items) idx =
     (case make_row now item idx of
        Inl e \<Rightarrow> Inl e
      | Inr r \<Rightarrow>
          (case map_items now items (Suc idx) of
             Inl e \<Rightarrow> Inl e
           | Inr rs \<Rightarrow> Inr (r # rs)))"

text \<open>\<^verbatim>\<open>Array.isArray(parsed) ? parsed : [parsed]\<close>\<close>

definition items_of :: "json \<Rightarrow> json list" where
  "items_of parsed = (case parsed of JArray xs \<Rightarrow> xs | _ \<Rightarrow> [parsed])"

text \<open>\<^verbatim>\<open>String.prototype.endsWith\<close>\<close>

definition endsWith :: "string \<Rightarrow> string \<Rightarrow> bool" where
  "endsWith s t = (length t \<le> length s \<and> drop (length s - length t) s = t)"

text \<open>
  \<^verbatim>\<open>JSON.parse\<close> is the argument \<open>JSON_parse\<close>, with \<open>None\<close> where it throws
  its \<^verbatim>\<open>SyntaxError\<close>, that is, where the content is not valid JSON.
\<close>

definition parseData ::
  "(string \<Rightarrow> json option) \<Rightarrow> (nat \<Rightarrow> string) \<Rightarrow> string \<Rightarrow> string \<Rightarrow>
   error + ParsedRow list" where
  "parseData JSON_parse now content filename =
     (let rows = [] in
      if endsWith filename ''.json'' then
        (case JSON_parse content of
           None \<Rightarrow> Inl SyntaxError
         | Some parsed \<Rightarrow> map_items now (items_of parsed) 0)
      else Inr rows)"

section \<open>The state of the bot and the host\<close>

text \<open>
  The fields of the class that the workflow reads or writes. The fields \<^verbatim>\<open>kiro\<close>
  and \<^verbatim>\<open>fs\<close> hold objects of the runtime that no method uses.
\<close>

record CSVAutomationBot =
  outputDir :: string
  inputDir :: string
  processedCount :: nat

text \<open>The field initialisers and the constructor; the exported singleton.\<close>

definition new_CSVAutomationBot :: CSVAutomationBot where
  "new_CSVAutomationBot =
     \<lparr>outputDir = ''./data/output'', inputDir = ''./data/input'', processedCount = 0\<rparr>"

definition automationBot :: CSVAutomationBot where
  "automationBot = new_CSVAutomationBot"

text \<open>
  The object literal \<^verbatim>\<open>report\<close> of \<^verbatim>\<open>generateReport\<close>; its field
  \<^verbatim>\<open>timestamp\<close> is named \<open>report_timestamp\<close> here.
\<close>

record report =
  report_timestamp :: string
  totalRecordsProcessed :: nat
  outputDirectory :: string
  status :: string
  executionTime :: nat

text \<open>
  What one call of \<^verbatim>\<open>runAutomation\<close> takes from its host:
  \<^item> \<open>initialize_ok\<close>: whether the file-system calls of step 1,
    \<^verbatim>\<open>initializeDirectories\<close>, succeed;
  \<^item> \<open>readdirSync\<close>: the entries of the input directory in the order of the
    listing, each with what \<^verbatim>\<open>fs.readFileSync\<close> returns for it, \<open>None\<close> where
    that call throws; \<open>None\<close> for the whole when \<^verbatim>\<open>fs.readdirSync\<close> throws;
  \<^item> \<open>json_parse\<close>: \<^verbatim>\<open>JSON.parse\<close>, and \<open>parse_clock file idx\<close>: the clock as
    \<^verbatim>\<open>parseData\<close> reads it for the item at index \<open>idx\<close> of a file;
  \<^item> \<open>toLowerCase\<close>: \<^verbatim>\<open>String.prototype.toLowerCase\<close>;
  \<^item> \<open>Date_now cat\<close>: \<^verbatim>\<open>Date.now()\<close> as read in the iteration of
    \<^verbatim>\<open>generateCSVOutput\<close> for a category;
  \<^item> \<open>writeFileSync_ok dir file\<close>: whether \<^verbatim>\<open>fs.writeFileSync\<close> succeeds on
    \<^verbatim>\<open>path.join(dir, file)\<close>;
  \<^item> \<open>archive_ok\<close>: whether the file-system calls of step 6,
    \<^verbatim>\<open>archiveProcessedFiles\<close>, succeed;
  \<^item> \<open>report_iso\<close>, \<open>report_ms\<close>, \<open>report_now\<close>: the three readings of the clock
    in \<^verbatim>\<open>generateReport\<close>, \<^verbatim>\<open>new Date().toISOString()\<close>,
    \<^verbatim>\<open>new Date().getTime()\<close> and \<^verbatim>\<open>Date.now()\<close>.
\<close>

record host =
  initialize_ok :: bool
  readdirSync :: "(string \<times> string option) list option"
  json_parse :: "string \<Rightarrow> json option"
  parse_clock :: "string \<Rightarrow> nat \<Rightarrow> string"
  toLowerCase :: "string \<Rightarrow> string"
  Date_now :: "string \<Rightarrow> nat"
  writeFileSync_ok :: "string \<Rightarrow> string \<Rightarrow> bool"
  archive_ok :: bool
  report_iso :: string
  report_ms :: nat
  report_now :: nat

text \<open>
  The calls of \<^verbatim>\<open>fs.writeFileSync\<close> that succeeded, in order: the directory and
  the file name that \<^verbatim>\<open>path.join\<close> puts together, and the content. The report is
  written as \<^verbatim>\<open>JSON.stringify(report, null, 2)\<close>: the log keeps the object.
\<close>

datatype written = CSV_file string string string | Report_file string string report

type_synonym writes = "written list"

section \<open>\<^verbatim>\<open>readInputFiles\<close>\<close>

text \<open>
  The loop over the listing: an entry whose name ends in \<^verbatim>\<open>.csv\<close> or
  \<^verbatim>\<open>.json\<close> is read and parsed, and its rows are pushed on \<^verbatim>\<open>data\<close>; any
  other entry is skipped. The first exception ends the loop.
\<close>

fun read_files :: "host \<Rightarrow> (string \<times> string option) list \<Rightarrow> error + ParsedRow list" where
  "read_files h [] = Inr []"
| "read_files h ((file, read) # files) =
     (if endsWith file ''.csv'' \<or> endsWith file ''.json'' then
        (case read of
           None \<Rightarrow> Inl IOError
         | Some content \<Rightarrow>
             (case parseData (json_parse h) (parse_clock h file) content file of
                Inl e \<Rightarrow> Inl e
              | Inr parsedData \<Rightarrow>
                  (case read_files h files of
                     Inl e \<Rightarrow> Inl e
                   | Inr data \<Rightarrow> Inr (parsedData @ data))))
      else read_files h files)"

definition readInputFiles :: "host \<Rightarrow> error + ParsedRow list" where
  "readInputFiles h =
     (case readdirSync h of None \<Rightarrow> Inl IOError | Some files \<Rightarrow> read_files h files)"

text \<open>
  \<^verbatim>\<open>readInputFiles\<close> is declared to return \<^verbatim>\<open>DataRow[]\<close>, and the steps after
  it are modelled on rows of that type. The rows of \<^verbatim>\<open>parseData\<close> have it when
  their id, name and category are strings.
\<close>

definition DataRow_of :: "ParsedRow \<Rightarrow> DataRow option" where
  "DataRow_of r =
     (case (parsed_id r, parsed_name r, parsed_category r) of
        (JString i, JString n, JString c) \<Rightarrow>
          Some \<lparr>id_row = i, name = n, category = c, timestamp = parsed_timestamp r,
                processed = parsed_processed r\<rparr>
      | _ \<Rightarrow> None)"

fun DataRows_of :: "ParsedRow list \<Rightarrow> DataRow list option" where
  "DataRows_of [] = Some []"
| "DataRows_of (r # rs) =
     (case DataRow_of r of
        None \<Rightarrow> None
      | Some d \<Rightarrow> (case DataRows_of rs of None \<Rightarrow> None | Some ds \<Rightarrow> Some (d # ds)))"

section \<open>\<^verbatim>\<open>generateCSVOutput\<close> and \<^verbatim>\<open>generateReport\<close>\<close>

text \<open>The template literal \<^verbatim>\<open>`${category.toLowerCase()}_${Date.now()}.csv`\<close>.\<close>

definition csv_filename :: "host \<Rightarrow> string \<Rightarrow> string" where
  "csv_filename h cat = toLowerCase h cat @ ''_'' @ decimal (Date_now h cat) @ ''.csv''"

text \<open>
  \<^verbatim>\<open>generateCSVOutput\<close>: the loop over the entries of the map in iteration order.
  An iteration converts the bucket, makes the file name, writes the file and then
  adds the length of the bucket to \<^verbatim>\<open>this.processedCount\<close>. When the write
  throws, the loop ends there: the buckets before it are written and counted, this
  one and the ones after it are not. The result is the exception, if any, with the
  bot and the log as they are then.
\<close>

fun generateCSVOutput ::
  "host \<Rightarrow> (string, DataRow list) Map \<Rightarrow> CSVAutomationBot \<times> writes \<Rightarrow>
   error option \<times> CSVAutomationBot \<times> writes" where
  "generateCSVOutput h [] (this, w) = (None, this, w)"
| "generateCSVOutput h ((cat, rows) # organized) (this, w) =
     (let csvContent = convertToCSV rows;
          filename = csv_filename h cat
      in if writeFileSync_ok h (outputDir this) filename
         then generateCSVOutput h organized
                (this\<lparr>processedCount := processedCount this + length rows\<rparr>,
                 w @ [CSV_file (outputDir this) filename csvContent])
         else (Some IOError, this, w))"

text \<open>The template literal \<^verbatim>\<open>`report_${Date.now()}.json`\<close>.\<close>

definition report_filename :: "host \<Rightarrow> string" where
  "report_filename h = ''report_'' @ decimal (report_now h) @ ''.json''"

text \<open>\<^verbatim>\<open>generateReport\<close>: the report, when its file is written, or the exception.\<close>

definition generateReport ::
  "host \<Rightarrow> CSVAutomationBot \<times> writes \<Rightarrow> (error + report) \<times> writes" where
  "generateReport h s =
     (case s of (this, w) \<Rightarrow>
        let rep = \<lparr>report_timestamp = report_iso h,
                   totalRecordsProcessed = processedCount this,
                   outputDirectory = outputDir this,
                   status = ''SUCCESS'',
                   executionTime = report_ms h\<rparr>;
            filename = report_filename h
        in if writeFileSync_ok h (outputDir this) filename
           then (Inr rep, w @ [Report_file (outputDir this) filename rep])
           else (Inl IOError, w))"

section \<open>\<^verbatim>\<open>runAutomation\<close>\<close>

text \<open>
  The seven steps, on the bot and the log of the files written. An exception of a
  step leaves the method through \<^verbatim>\<open>catch\<close>, which logs and throws it again; the
  bot and the files stay as they are at the throw. The result is the report
  written, or the exception, with the state after the call.

  The result is \<open>None\<close> when a row read has an id, a name or a category that is
  not a string: the interface \<^verbatim>\<open>DataRow\<close> excludes such a row, the code goes on
  with it all the same, and the model does not follow it there.
\<close>

definition runAutomation ::
  "host \<Rightarrow> CSVAutomationBot \<times> writes \<Rightarrow>
   ((error + report) \<times> CSVAutomationBot \<times> writes) option" where
  "runAutomation h s =
     (if \<not> initialize_ok h then Some (Inl IOError, s)
      else
        case readInputFiles h of
          Inl e \<Rightarrow> Some (Inl e, s)
        | Inr rows \<Rightarrow>
            (case DataRows_of rows of
               None \<Rightarrow> None
             | Some data \<Rightarrow>
                 let cleanedData = cleanData data in
                 (case organizeData cleanedData of
                    Inl e \<Rightarrow> Some (Inl e, s)
                  | Inr organizedData \<Rightarrow>
                      (case generateCSVOutput h organizedData s of
                         (Some e, s') \<Rightarrow> Some (Inl e, s')
                       | (None, s') \<Rightarrow>
                           if \<not> archive_ok h then Some (Inl IOError, s')
                           else
                             (case generateReport h s' of
                                (r, w'') \<Rightarrow> Some (r, fst s', w''))))))"

section \<open>Notions of the specification\<close>

text \<open>The distinct elements of a list, in the order of their first occurrences.\<close>

fun first_seen :: "'a list \<Rightarrow> 'a list" where
  "first_seen [] = []"
| "first_seen (x # xs) = x # removeAll x (first_seen xs)"

text \<open>The last record of a sequence that carries a given id.\<close>

definition last_with_id :: "string \<Rightarrow> DataRow list \<Rightarrow> DataRow" where
  "last_with_id i data = last (filter (\<lambda>d. id_row d = i) data)"

text \<open>A record with non-empty id, name and category.\<close>

definition valid :: "DataRow \<Rightarrow> bool" where
  "valid r = (id_row r \<noteq> '''' \<and> name r \<noteq> '''' \<and> category r \<noteq> '''')"

text \<open>The buckets of a sequence: per category in first-seen order, its records in order.\<close>

definition buckets :: "DataRow list \<Rightarrow> (string, DataRow list) Map" where
  "buckets data =
     map (\<lambda>c. (c, filter (\<lambda>r. category r = c) data)) (first_seen (map category data))"

text \<open>
  The value of a property of an item that is not \<^verbatim>\<open>null\<close>: an object's own
  property where it has one, and \<open>None\<close>, for absent, in every other case.
\<close>

definition field :: "json \<Rightarrow> string \<Rightarrow> json option" where
  "field item p = (case item of JObject ps \<Rightarrow> map_of ps p | _ \<Rightarrow> None)"

text \<open>A value, or its fallback when the value is absent or falsy.\<close>

definition or_fallback :: "json option \<Rightarrow> json \<Rightarrow> json" where
  "or_fallback v d =
     (case v of None \<Rightarrow> d | Some x \<Rightarrow> if truthy_json x then x else d)"

text \<open>
  The record that the specification asks for an item at index \<open>idx\<close>: each of id,
  name and category is the item's value or its fallback; the time stamp is the
  instant of parsing, and processed is false.
\<close>

definition row_of :: "(nat \<Rightarrow> string) \<Rightarrow> json \<Rightarrow> nat \<Rightarrow> ParsedRow" where
  "row_of now item idx =
     \<lparr>parsed_id = or_fallback (field item ''id'') (JString (''row_'' @ decimal idx)),
      parsed_name = or_fallback (field item ''name'') (JString ''Unknown''),
      parsed_category = or_fallback (field item ''category'') (JString ''Uncategorized''),
      parsed_timestamp = now idx,
      parsed_processed = False\<rparr>"

text \<open>The number of records in a sequence of buckets.\<close>

definition records :: "(string, DataRow list) Map \<Rightarrow> nat" where
  "records organized = sum_list (map (\<lambda>(cat, rows). length rows) organized)"

text \<open>The file of a bucket in the log, and whether the host lets it be written.\<close>

definition csv_entry :: "host \<Rightarrow> string \<Rightarrow> string \<times> DataRow list \<Rightarrow> written" where
  "csv_entry h dir b = CSV_file dir (csv_filename h (fst b)) (convertToCSV (snd b))"

definition csv_ok :: "host \<Rightarrow> string \<Rightarrow> string \<times> DataRow list \<Rightarrow> bool" where
  "csv_ok h dir b = writeFileSync_ok h dir (csv_filename h (fst b))"

text \<open>
  The buckets that a run emits, that is, whose files it writes: those of the
  cleaned rows up to the first one that the host does not let be written, and none
  when the run ends before step 5.
\<close>

definition emitted :: "host \<Rightarrow> CSVAutomationBot \<Rightarrow> (string, DataRow list) Map" where
  "emitted h this =
     (if initialize_ok h then
        (case readInputFiles h of
           Inl e \<Rightarrow> []
         | Inr rows \<Rightarrow>
             (case DataRows_of rows of
                None \<Rightarrow> []
              | Some data \<Rightarrow>
                  takeWhile (csv_ok h (outputDir this)) (buckets (cleanData data))))
      else [])"

text \<open>
  A host on which every call of the file system of a run succeeds, given the rows
  that the run reads.
\<close>

definition host_ok :: "host \<Rightarrow> CSVAutomationBot \<Rightarrow> DataRow list \<Rightarrow> bool" where
  "host_ok h this data =
     (initialize_ok h \<and>
      list_all (csv_ok h (outputDir this)) (buckets (cleanData data)) \<and>
      archive_ok h \<and>
      writeFileSync_ok h (outputDir this) (report_filename h))"

section \<open>Values for the examples\<close>

text \<open>
  The values of \<^verbatim>\<open>JSON.parse\<close> at five contents: \<^verbatim>\<open>null\<close>, an array of an
  empty object and a number, an array of an empty object and \<^verbatim>\<open>null\<close>, and the
  contents of the two files below. The examples apply it to these contents only.
\<close>

definition team_json :: string where
  \<open>team_json =
     ''[{"id":"1","name":"Alice","category":"Team"},{"id":"2","name":"Bob","category":"Team"},{"id":"1","name":"Alice2","category":"Team"}]''\<close>

definition slash_json :: string where
  \<open>slash_json =
     ''[{"id":"1","name":"Ann","category":"Ok"},{"id":"2","name":"Ben","category":"A/B"}]''\<close>

definition example_JSON_parse :: "string \<Rightarrow> json option" where
  "example_JSON_parse =
     [''null'' \<mapsto> JNull,
      ''[{},7]'' \<mapsto> JArray [JObject [], JNumber 7],
      ''[{},null]'' \<mapsto> JArray [JObject [], JNull],
      team_json \<mapsto> JArray
        [JObject [(''id'', JString ''1''), (''name'', JString ''Alice''),
                  (''category'', JString ''Team'')],
         JObject [(''id'', JString ''2''), (''name'', JString ''Bob''),
                  (''category'', JString ''Team'')],
         JObject [(''id'', JString ''1''), (''name'', JString ''Alice2''),
                  (''category'', JString ''Team'')]],
      slash_json \<mapsto> JArray
        [JObject [(''id'', JString ''1''), (''name'', JString ''Ann''),
                  (''category'', JString ''Ok'')],
         JObject [(''id'', JString ''2''), (''name'', JString ''Ben''),
                  (''category'', JString ''A/B'')]]]"

definition example_now :: "nat \<Rightarrow> string" where
  "example_now idx = ''2025-12-03T10:30:00Z''"

text \<open>\<^verbatim>\<open>toLowerCase\<close> at the categories of the two files.\<close>

definition example_toLowerCase :: "string \<Rightarrow> string" where
  "example_toLowerCase s =
     (if s = ''Team'' then ''team'' else if s = ''Ok'' then ''ok''
      else if s = ''A/B'' then ''a/b'' else s)"

text \<open>
  A host whose input directory holds one file to parse and one entry that is
  skipped, and on which every call of the file system succeeds.
\<close>

definition example_host :: host where
  "example_host =
     \<lparr>initialize_ok = True,
      readdirSync = Some [(''notes.txt'', None), (''team.json'', Some team_json)],
      json_parse = example_JSON_parse,
      parse_clock = (\<lambda>file. example_now),
      toLowerCase = example_toLowerCase,
      Date_now = (\<lambda>cat. 1764757800000),
      writeFileSync_ok = (\<lambda>dir file. True),
      archive_ok = True,
      report_iso = ''2025-12-03T10:30:00Z'',
      report_ms = 1764757800000,
      report_now = 1764757800000\<rparr>"

text \<open>
  A host whose input file has the categories \<^verbatim>\<open>Ok\<close> and \<^verbatim>\<open>A/B\<close>. The file
  name of the second has a slash, so its path lies in a directory that does not
  exist, and the write fails.
\<close>

definition slash_host :: host where
  "slash_host =
     example_host
       \<lparr>readdirSync := Some [(''slash.json'', Some slash_json)],
        writeFileSync_ok := (\<lambda>dir file. file \<noteq> ''a/b_1764757800000.csv'')\<rparr>"

text \<open>A record for the examples: id, name and category, with a fixed time stamp.\<close>

abbreviation example_row :: "string \<Rightarrow> string \<Rightarrow> string \<Rightarrow> DataRow" where
  "example_row i n c \<equiv>
     \<lparr>id_row = i, name = n, category = c, timestamp = ''2025-12-03T10:30:00Z'',
      processed = False\<rparr>"

text \<open>The rows of the two files, as parsed and as records.\<close>

definition parsed_row :: "string \<Rightarrow> string \<Rightarrow> string \<Rightarrow> ParsedRow" where
  "parsed_row i n c =
     \<lparr>parsed_id = JString i, parsed_name = JString n, parsed_category = JString c,
      parsed_timestamp = ''2025-12-03T10:30:00Z'', parsed_processed = False\<rparr>"

definition team_parsed :: "ParsedRow list" where
  "team_parsed =
     [parsed_row ''1'' ''Alice'' ''Team'', parsed_row ''2'' ''Bob'' ''Team'',
      parsed_row ''1'' ''Alice2'' ''Team'']"

definition team_rows :: "DataRow list" where
  "team_rows =
     [example_row ''1'' ''Alice'' ''Team'', example_row ''2'' ''Bob'' ''Team'',
      example_row ''1'' ''Alice2'' ''Team'']"

definition slash_parsed :: "ParsedRow list" where
  "slash_parsed = [parsed_row ''1'' ''Ann'' ''Ok'', parsed_row ''2'' ''Ben'' ''A/B'']"

definition slash_rows :: "DataRow list" where
  "slash_rows = [example_row ''1'' ''Ann'' ''Ok'', example_row ''2'' ''Ben'' ''A/B'']"

section \<open>Deduplication and validation\<close>

subsection \<open>The map built from a list of entries\<close>

lemma set_first_seen [simp]: "set (first_seen xs) = set xs"
  by (induction xs) auto

lemma distinct_first_seen [simp]: "distinct (first_seen xs)"
  by (induction xs) (auto simp: distinct_removeAll)

lemma first_seen_snoc:
  "first_seen (xs @ [x]) = (if x \<in> set xs then first_seen xs else first_seen xs @ [x])"
  by (induction xs) auto

lemma Map_set_tabulate:
  "distinct ks \<Longrightarrow>
   Map_set k v (map (\<lambda>i. (i, f i)) ks) =
   map (\<lambda>i. (i, (f(k := v)) i)) (if k \<in> set ks then ks else ks @ [k])"
  by (induction ks) auto

lemma new_Map_snoc: "new_Map (es @ [(k, v)]) = Map_set k v (new_Map es)"
  by (simp add: new_Map_def)

lemma new_Map_tabulate:
  "new_Map es = map (\<lambda>k. (k, the (map_of (rev es) k))) (first_seen (map fst es))"
proof (induction es rule: rev_induct)
  case Nil
  show ?case by (simp add: new_Map_def)
next
  case (snoc e es)
  obtain k v where e: "e = (k, v)" by (cases e)
  have "new_Map (es @ [e]) = Map_set k v (new_Map es)"
    by (simp add: e new_Map_snoc)
  also have "\<dots> = map (\<lambda>i. (i, ((\<lambda>k. the (map_of (rev es) k))(k := v)) i))
      (if k \<in> set (first_seen (map fst es)) then first_seen (map fst es)
       else first_seen (map fst es) @ [k])"
    unfolding snoc.IH by (rule Map_set_tabulate) simp
  also have "\<dots> = map (\<lambda>k. (k, the (map_of (rev (es @ [e])) k))) (first_seen (map fst (es @ [e])))"
    by (auto simp: e first_seen_snoc)
  finally show ?case .
qed

lemma map_of_rev_ids:
  "i \<in> id_row ` set data \<Longrightarrow>
   the (map_of (rev (map (\<lambda>d. (id_row d, d)) data)) i) = last_with_id i data"
proof (induction data rule: rev_induct)
  case Nil
  then show ?case by simp
next
  case (snoc d data)
  then show ?case by (auto simp: last_with_id_def)
qed

lemma unique_char:
  "unique data = map (\<lambda>i. last_with_id i data) (first_seen (map id_row data))"
  unfolding unique_def Map_values_def new_Map_tabulate
  by (simp add: comp_def map_of_rev_ids)

lemma cleanData_filter: "cleanData data = filter valid (unique data)"
  unfolding cleanData_def Let_def
  by (rule filter_cong) (auto simp: truthy_def js_and_def valid_def)

lemma id_last_with_id:
  assumes "i \<in> set (map id_row data)"
  shows "id_row (last_with_id i data) = i"
proof -
  from assms have ne: "filter (\<lambda>d. id_row d = i) data \<noteq> []"
    by (auto simp: filter_empty_conv)
  from last_in_set [OF ne] show ?thesis by (simp add: last_with_id_def)
qed

lemma ids_unique: "map id_row (unique data) = first_seen (map id_row data)"
proof -
  have "map (\<lambda>i. id_row (last_with_id i data)) (first_seen (map id_row data)) =
    map (\<lambda>i. i) (first_seen (map id_row data))"
    by (rule map_cong [OF refl]) (simp add: id_last_with_id)
  then show ?thesis by (simp add: unique_char comp_def)
qed

lemma filter_same_key:
  "distinct (map f ys) \<Longrightarrow> y \<in> set ys \<Longrightarrow> filter (\<lambda>d. f d = f y) ys = [y]"
proof (induction ys)
  case Nil
  then show ?case by simp
next
  case (Cons a ys)
  show ?case
  proof (cases "a = y")
    case True
    with Cons.prems have "f y \<notin> f ` set ys" by simp
    then have "\<forall>d\<in>set ys. f d \<noteq> f y" by (metis imageI)
    then have "filter (\<lambda>d. f d = f y) ys = []"
      by (simp add: filter_empty_conv)
    with True show ?thesis by simp
  next
    case False
    with Cons show ?thesis by auto
  qed
qed

lemma first_seen_distinct: "distinct xs \<Longrightarrow> first_seen xs = xs"
  by (induction xs) auto

lemma unique_last: 
  assumes "r \<in> set (unique data)" 
  shows "r = last_with_id (id_row r) data"
proof -
  from assms obtain i where i: "i \<in> set (map id_row data)" and r: "r = last_with_id i data"
    by (auto simp: unique_char)
  from id_last_with_id [OF i] r show ?thesis by simp
qed

lemma unique_of_distinct:
  assumes "distinct (map id_row ys)"
  shows "unique ys = ys"
proof -
  have "map (\<lambda>i. last_with_id i ys) (map id_row ys) = map (\<lambda>y. y) ys"
    unfolding map_map comp_def
    by (rule map_cong [OF refl]) (simp add: last_with_id_def filter_same_key [OF assms])
  then show ?thesis by (simp add: unique_char first_seen_distinct [OF assms])
qed

lemma distinct_ids_cleanData: "distinct (map id_row (cleanData data))"
proof -
  have "distinct (map id_row (unique data))" by (simp add: ids_unique)
  then show ?thesis unfolding cleanData_filter by (rule distinct_map_filter)
qed

lemma cleanData_idem: "cleanData (cleanData data) = cleanData data"
proof -
  have "unique (cleanData data) = cleanData data"
    by (rule unique_of_distinct) (rule distinct_ids_cleanData)
  then have "cleanData (cleanData data) = filter valid (cleanData data)"
    by (simp add: cleanData_filter [of "cleanData data"])
  also have "\<dots> = cleanData data"
    by (simp add: cleanData_filter [of data])
  finally show ?thesis .
qed

lemma ids_cleanData:
  "map id_row (cleanData data) =
   filter (\<lambda>i. valid (last_with_id i data)) (first_seen (map id_row data))"
proof -
  let ?P = "\<lambda>i. valid (last_with_id i data)"
  let ?ks = "first_seen (map id_row data)"
  have "map id_row (cleanData data) = map (\<lambda>i. id_row (last_with_id i data)) (filter ?P ?ks)"
    by (simp add: cleanData_filter unique_char filter_map comp_def)
  also have "\<dots> = map (\<lambda>i. i) (filter ?P ?ks)"
    by (rule map_cong [OF refl]) (simp add: id_last_with_id)
  finally show ?thesis by simp
qed


subsection \<open>The claims on \<^verbatim>\<open>cleanData\<close>\<close>

text \<open>
  C1, as stated, fails: \<open>cleanData\<close> validates after it deduplicates, so an id
  whose last occurrence has an empty name or category has no record in the output.
  Here the id \<open>1\<close> occurs in the input, and nothing is kept.
\<close>

theorem cleanData_drops_id_counterexample:
  "cleanData [example_row ''1'' ''A'' ''Team'', example_row ''1'' [] ''Team''] = []"
  by (simp add: cleanData_def unique_def Map_values_def new_Map_def truthy_def js_and_def)

text \<open>
  C1, amended: the deduplication step of \<open>cleanData\<close>, the array \<open>unique\<close>, holds
  exactly one record per distinct id of the input, and that record is the last one
  of the input with this id; \<open>cleanData\<close> returns the records of \<open>unique\<close> whose
  id, name and category are non-empty.
\<close>

theorem cleanData_last_wins:
  "distinct (map id_row (unique data)) \<and>
   set (map id_row (unique data)) = set (map id_row data) \<and>
   (\<forall>r \<in> set (unique data). r = last_with_id (id_row r) data) \<and>
   cleanData data = filter valid (unique data)"
  using unique_last [of _ data]
  by (simp add: ids_unique cleanData_filter del: set_map)

text \<open>
  The example of the claim, with a category: of two records with id \<open>1\<close>, the one
  named \<open>B\<close>, which comes last, is the one kept.
\<close>

theorem cleanData_last_wins_witness:
  "example_row ''1'' ''B'' ''Team''
     \<in> set (unique [example_row ''1'' ''A'' ''Team'', example_row ''1'' ''B'' ''Team'']) \<and>
   example_row ''1'' ''B'' ''Team'' =
     last_with_id ''1'' [example_row ''1'' ''A'' ''Team'', example_row ''1'' ''B'' ''Team''] \<and>
   cleanData [example_row ''1'' ''A'' ''Team'', example_row ''1'' ''B'' ''Team''] =
     [example_row ''1'' ''B'' ''Team'']"
  using cleanData_last_wins [of "[example_row ''1'' ''A'' ''Team'', example_row ''1'' ''B'' ''Team'']"]
  by (simp add: unique_def Map_values_def new_Map_def valid_def last_with_id_def)

text \<open>
  C2: a record of the deduplicated sequence survives validation in \<open>cleanData\<close>
  exactly when its id, name and category are all non-empty, and the survivors keep
  the order of the deduplicated sequence: the result is that sequence filtered.
\<close>

theorem cleanData_validation:
  "cleanData data =
     filter (\<lambda>r. id_row r \<noteq> '''' \<and> name r \<noteq> '''' \<and> category r \<noteq> '''') (unique data)"
  unfolding cleanData_def Let_def
  by (rule filter_cong) (auto simp: truthy_def js_and_def)

text \<open>
  C4: the ids of the deduplicated sequence are the distinct ids of the input in the
  order of their first occurrences, and the output of \<open>cleanData\<close> follows the same
  order, restricted to the ids whose last record is valid. With id \<open>1\<close> first seen
  before id \<open>2\<close> and last seen after it, the record of id \<open>1\<close> comes first.
\<close>

theorem cleanData_first_seen_order:
  "map id_row (unique data) = first_seen (map id_row data) \<and>
   map id_row (cleanData data) =
     filter (\<lambda>i. valid (last_with_id i data)) (first_seen (map id_row data)) \<and>
   cleanData [example_row ''1'' ''Alice'' ''Team'', example_row ''2'' ''Bob'' ''Team'',
              example_row ''1'' ''Alice2'' ''Team''] =
     [example_row ''1'' ''Alice2'' ''Team'', example_row ''2'' ''Bob'' ''Team'']"
  by (simp add: ids_unique ids_cleanData)
    (simp add: cleanData_def unique_def Map_values_def new_Map_def truthy_def js_and_def)

text \<open>
  C9: \<open>cleanData\<close> is idempotent: applied to its own output, it returns that output,
  the same records in the same order.
\<close>

theorem cleanData_idempotent: "cleanData (cleanData data) = cleanData data"
  by (rule cleanData_idem)

section \<open>Categorisation\<close>

lemma map_of_tabulate:
  "map_of (map (\<lambda>i. (i, f i)) ks) k = (if k \<in> set ks then Some (f k) else None)"
  by (induction ks) auto

lemma buckets_Nil: "buckets [] = []"
  by (simp add: buckets_def)

lemma organize_step_buckets:
  "organize_step (buckets done) row = Inr (buckets (done @ [row]))"
proof -
  let ?c = "category row"
  let ?ks = "first_seen (map category done)"
  let ?f = "\<lambda>c. filter (\<lambda>r. category r = c) done"
  have b: "buckets done = map (\<lambda>c. (c, ?f c)) ?ks" by (simp add: buckets_def)
  have d: "distinct ?ks" by simp
  have target: "buckets (done @ [row]) =
      map (\<lambda>c. (c, (?f(?c := ?f ?c @ [row])) c)) (if ?c \<in> set ?ks then ?ks else ?ks @ [?c])"
    by (auto simp: buckets_def first_seen_snoc)
  show ?thesis
  proof (cases "?c \<in> set ?ks")
    case True
    then have has: "Map_has ?c (buckets done)"
      by (simp add: Map_has_def b map_of_tabulate)
    from True have get: "Map_get ?c (buckets done) = Some (?f ?c)"
      by (simp add: Map_get_def b map_of_tabulate)
    have "Map_set ?c (?f ?c @ [row]) (buckets done) = buckets (done @ [row])"
      unfolding target unfolding b by (rule Map_set_tabulate [OF d])
    with has get show ?thesis by (simp add: organize_step_def)
  next
    case False
    then have has: "\<not> Map_has ?c (buckets done)"
      by (simp add: Map_has_def b map_of_tabulate)
    have s1: "Map_set ?c [] (buckets done) = map (\<lambda>c. (c, (?f(?c := [])) c)) (?ks @ [?c])"
      unfolding b using Map_set_tabulate [OF d, of ?c "[]" ?f] False by simp
    have d': "distinct (?ks @ [?c])" using False by simp
    have get: "Map_get ?c (Map_set ?c [] (buckets done)) = Some []"
      unfolding s1 Map_get_def map_of_tabulate by simp
    from False have "?c \<notin> category ` set done" by simp
    then have "\<forall>r\<in>set done. category r \<noteq> ?c" by (metis imageI)
    then have empty: "?f ?c = []" by (simp add: filter_empty_conv)
    have "Map_set ?c ([] @ [row]) (Map_set ?c [] (buckets done)) = buckets (done @ [row])"
      unfolding s1 target using Map_set_tabulate [OF d', of ?c "[] @ [row]" "?f(?c := [])"] False empty
      by simp
    with has get show ?thesis by (simp add: organize_step_def)
  qed
qed

lemma organize_loop_buckets:
  "organize_loop (buckets done) data = Inr (buckets (done @ data))"
proof (induction data arbitrary: "done")
  case Nil
  then show ?case by simp
next
  case (Cons row data)
  from Cons.IH [of "done @ [row]"] show ?case
    by (simp add: organize_step_buckets)
qed

lemma organizeData_buckets: "organizeData data = Inr (buckets data)"
  using organize_loop_buckets [of "[]" data] by (simp add: organizeData_def buckets_Nil)

lemma mset_buckets_aux:
  "distinct ks \<Longrightarrow>
   mset (concat (map (\<lambda>c. filter (\<lambda>r. f r = c) data) ks)) =
   mset (filter (\<lambda>r. f r \<in> set ks) data)"
proof (induction ks)
  case Nil
  then show ?case by simp
next
  case (Cons k ks)
  have "mset (filter (\<lambda>r. f r = k) data) + mset (filter (\<lambda>r. f r \<in> set ks) data) =
    mset (filter (\<lambda>r. f r \<in> set (k # ks)) data)"
    using Cons.prems
    by (induction data) auto
  with Cons show ?case by simp
qed

lemma mset_buckets: "mset (concat (map snd (buckets data))) = mset data"
proof -
  have "mset (concat (map snd (buckets data))) =
    mset (filter (\<lambda>r. category r \<in> set (first_seen (map category data))) data)"
    unfolding buckets_def map_map comp_def snd_conv
    by (rule mset_buckets_aux) simp
  then show ?thesis by simp
qed

lemma keys_buckets: "map fst (buckets data) = first_seen (map category data)"
  by (simp add: buckets_def comp_def)

text \<open>
  C3: \<open>organizeData\<close> returns, without error, one bucket per category in the
  order in which the categories are first seen; the bucket of a category holds the
  records with exactly this category, in the order of the input; the keys are
  distinct, and the buckets together hold every input record once and nothing else.
\<close>

theorem organizeData_partition:
  "\<exists>organized. organizeData data = Inr organized \<and>
     organized =
       map (\<lambda>c. (c, filter (\<lambda>r. category r = c) data)) (first_seen (map category data)) \<and>
     distinct (map fst organized) \<and>
     mset (concat (map snd organized)) = mset data"
  using mset_buckets [of data] keys_buckets [of data]
  by (simp add: organizeData_buckets) (simp add: buckets_def)

section \<open>The output format\<close>

lemma join_Cons: "join sep (x # xs) = x @ concat (map (\<lambda>y. sep @ y) xs)"
  by (induction xs arbitrary: x) auto

text \<open>
  C6: \<open>convertToCSV\<close> produces the header line, then for each record in order a
  line feed and the line of the record: id, name, category and time stamp each
  between double quotes, copied as they are, and \<^verbatim>\<open>true\<close> or \<^verbatim>\<open>false\<close>
  without quotes, with commas between them.
\<close>

theorem convertToCSV_format:
  "convertToCSV data =
     ''ID,Name,Category,Timestamp,Processed'' @
     concat (map (\<lambda>d. [CHR 0x0A] @
        [CHR 0x22] @ id_row d @ [CHR 0x22] @ '','' @
        [CHR 0x22] @ name d @ [CHR 0x22] @ '','' @
        [CHR 0x22] @ category d @ [CHR 0x22] @ '','' @
        [CHR 0x22] @ timestamp d @ [CHR 0x22] @ '','' @
        (if processed d then ''true'' else ''false'')) data)"
  by (simp add: convertToCSV_def join_Cons csv_row_def String_of_bool_def comp_def)

section \<open>Parsing\<close>

lemma endsWith_suffix: "endsWith s t \<longleftrightarrow> suffix t s"
proof
  assume "endsWith s t"
  then have "s = take (length s - length t) s @ t"
    by (metis append_take_drop_id endsWith_def)
  then show "suffix t s" by (metis suffixI)
next
  assume "suffix t s"
  then obtain zs where "s = zs @ t" by (auto simp: suffix_def)
  then show "endsWith s t" by (simp add: endsWith_def)
qed

lemma csv_not_json:
  assumes "endsWith filename ''.csv''"
  shows "\<not> endsWith filename ''.json''"
proof
  assume "endsWith filename ''.json''"
  then obtain us where "filename = us @ ''.json''"
    by (auto simp: endsWith_suffix suffix_def)
  then have n: "last filename = CHR ''n''" by simp
  from assms obtain vs where "filename = vs @ ''.csv''"
    by (auto simp: endsWith_suffix suffix_def)
  then have "last filename = CHR ''v''" by simp
  with n show False by simp
qed

lemma property_field: "item \<noteq> JNull \<Longrightarrow> property item p = Inr (field item p)"
  by (cases item) (auto simp: field_def)

lemma js_or_fallback: "js_or v d = or_fallback v d"
  by (simp add: js_or_def or_fallback_def)

lemma make_row_not_null:
  assumes "item \<noteq> JNull"
  shows "make_row now item idx = Inr (row_of now item idx)"
  by (simp add: make_row_def row_of_def property_field [OF assms] js_or_fallback)

lemma make_row_null: "make_row now JNull idx = Inl TypeError"
  by (simp add: make_row_def)

lemma map_items_not_null:
  "JNull \<notin> set items \<Longrightarrow>
   map_items now items idx = Inr (map (\<lambda>(k, item). row_of now item (idx + k)) (enumerate 0 items))"
proof (induction items arbitrary: idx)
  case Nil
  then show ?case by simp
next
  case (Cons item items)
  then have "item \<noteq> JNull" by auto
  from make_row_not_null [OF this] Cons show ?case
    by (simp add: enumerate_Suc_eq comp_def case_prod_unfold)
qed

lemma map_items_null:
  "JNull \<in> set items \<Longrightarrow> map_items now items idx = Inl TypeError"
proof (induction items arbitrary: idx)
  case Nil
  then show ?case by simp
next
  case (Cons item items)
  show ?case
  proof (cases "item = JNull")
    case True
    then show ?thesis by (simp add: make_row_null)
  next
    case False
    with Cons.prems have "JNull \<in> set items" by simp
    from Cons.IH [OF this] make_row_not_null [OF False] show ?thesis by simp
  qed
qed

lemma parseData_json_char:
  "endsWith filename ''.json'' \<Longrightarrow>
   parseData JSON_parse now content filename =
     (case JSON_parse content of
        None \<Rightarrow> Inl SyntaxError
      | Some parsed \<Rightarrow>
          if JNull \<in> set (items_of parsed) then Inl TypeError
          else Inr (map (\<lambda>(idx, item). row_of now item idx) (enumerate 0 (items_of parsed))))"
  using map_items_not_null [of _ now 0] map_items_null [of _ now 0]
  by (auto simp: parseData_def split: option.splits)

text \<open>
  C7, as stated, fails: \<^verbatim>\<open>null\<close> is valid JSON, and so is an array with a
  \<^verbatim>\<open>null\<close> element, but reading \<^verbatim>\<open>item.id\<close> of \<^verbatim>\<open>null\<close> throws a
  \<^verbatim>\<open>TypeError\<close>.
\<close>

theorem parseData_null_counterexample:
  "parseData example_JSON_parse example_now ''null'' ''data.json'' = Inl TypeError \<and>
   parseData example_JSON_parse example_now ''[{},null]'' ''data.json'' = Inl TypeError"
  by (simp add: parseData_def example_JSON_parse_def team_json_def slash_json_def
      endsWith_def items_of_def make_row_def)

text \<open>
  C7, amended: on a file whose name ends in \<^verbatim>\<open>.json\<close>, \<open>parseData\<close> raises
  a \<^verbatim>\<open>SyntaxError\<close> exactly when the content is not valid JSON; when it is
  valid and the parsed value is neither \<^verbatim>\<open>null\<close> nor an array with a
  \<^verbatim>\<open>null\<close> element, it returns without error one record per item, in order,
  with the fallbacks \<^verbatim>\<open>row_\<close> and the index, \<^verbatim>\<open>Unknown\<close> and
  \<^verbatim>\<open>Uncategorized\<close> for absent fields and processed set to false; a parsed
  value that is not an array is the only item.
\<close>

theorem parseData_json:
  assumes "endsWith filename ''.json''"
  shows "(parseData JSON_parse now content filename = Inl SyntaxError) =
            (JSON_parse content = None) \<and>
         (\<forall>parsed. JSON_parse content = Some parsed \<and> JNull \<notin> set (items_of parsed) \<longrightarrow>
            parseData JSON_parse now content filename =
              Inr (map (\<lambda>(idx, item). row_of now item idx) (enumerate 0 (items_of parsed)))) \<and>
         (\<forall>parsed. (\<forall>xs. parsed \<noteq> JArray xs) \<longrightarrow> items_of parsed = [parsed])"
  using assms
  by (auto simp: parseData_json_char items_of_def split: json.splits option.splits if_splits)

text \<open>An array of an empty object and a number: two records, all fallbacks.\<close>

theorem parseData_json_witness:
  "endsWith ''data.json'' ''.json'' \<and>
   example_JSON_parse ''[{},7]'' = Some (JArray [JObject [], JNumber 7]) \<and>
   JNull \<notin> set (items_of (JArray [JObject [], JNumber 7])) \<and>
   parseData example_JSON_parse example_now ''[{},7]'' ''data.json'' =
     Inr [\<lparr>parsed_id = JString ''row_0'', parsed_name = JString ''Unknown'',
           parsed_category = JString ''Uncategorized'',
           parsed_timestamp = ''2025-12-03T10:30:00Z'', parsed_processed = False\<rparr>,
          \<lparr>parsed_id = JString ''row_1'', parsed_name = JString ''Unknown'',
           parsed_category = JString ''Uncategorized'',
           parsed_timestamp = ''2025-12-03T10:30:00Z'', parsed_processed = False\<rparr>]"
proof -
  have e: "endsWith ''data.json'' ''.json''" by (simp add: endsWith_def)
  have p: "example_JSON_parse ''[{},7]'' = Some (JArray [JObject [], JNumber 7])"
    by (simp add: example_JSON_parse_def team_json_def slash_json_def)
  have n: "JNull \<notin> set (items_of (JArray [JObject [], JNumber 7]))"
    by (simp add: items_of_def)
  from parseData_json [OF e, where JSON_parse = example_JSON_parse
      and content = "''[{},7]''" and now = example_now] p n
  have "parseData example_JSON_parse example_now ''[{},7]'' ''data.json'' =
    Inr (map (\<lambda>(idx, item). row_of example_now item idx)
      (enumerate 0 (items_of (JArray [JObject [], JNumber 7]))))"
    by blast
  then show ?thesis using e p n
    by (simp add: items_of_def row_of_def field_def or_fallback_def example_now_def)
qed

text \<open>
  C8: on a file whose name ends in \<^verbatim>\<open>.csv\<close>, \<open>parseData\<close> returns the empty
  sequence and raises no error, whatever the content.
\<close>

theorem parseData_csv:
  assumes "endsWith filename ''.csv''"
  shows "parseData JSON_parse now content filename = Inr []"
  using assms by (simp add: parseData_def csv_not_json)

theorem parseData_csv_witness:
  "endsWith ''data.csv'' ''.csv'' \<and>
   parseData example_JSON_parse example_now ''[{},7]'' ''data.csv'' = Inr []"
proof -
  have e: "endsWith ''data.csv'' ''.csv''" by (simp add: endsWith_def)
  from parseData_csv [OF e] e show ?thesis by simp
qed

section \<open>The running total\<close>

lemma records_buckets: "records (buckets data) = length data"
proof -
  have "records (buckets data) = length (concat (map snd (buckets data)))"
    by (simp add: records_def length_concat comp_def case_prod_unfold)
  also have "\<dots> = size (mset (concat (map snd (buckets data))))" by simp
  also have "\<dots> = length data" unfolding mset_buckets by simp
  finally show ?thesis .
qed

lemma records_Cons: "records ((cat, rows) # organized) = length rows + records organized"
  by (simp add: records_def)

lemma records_Nil: "records [] = 0"
  by (simp add: records_def)

lemma generateCSVOutput_char:
  "generateCSVOutput h organized (this, w) =
     (if list_all (csv_ok h (outputDir this)) organized then None else Some IOError,
      this\<lparr>processedCount :=
        processedCount this + records (takeWhile (csv_ok h (outputDir this)) organized)\<rparr>,
      w @ map (csv_entry h (outputDir this)) (takeWhile (csv_ok h (outputDir this)) organized))"
proof (induction organized arbitrary: this w)
  case Nil
  then show ?case by (simp add: records_Nil)
next
  case (Cons b organized)
  obtain cat rows where b: "b = (cat, rows)" by (cases b)
  show ?case
  proof (cases "csv_ok h (outputDir this) b")
    case True
    then have "writeFileSync_ok h (outputDir this) (csv_filename h cat)"
      by (simp add: csv_ok_def b)
    with True show ?thesis
      by (simp add: b Cons.IH records_Cons csv_entry_def add.assoc)
  next
    case False
    then have "\<not> writeFileSync_ok h (outputDir this) (csv_filename h cat)"
      by (simp add: csv_ok_def b)
    with False show ?thesis by (simp add: b records_Nil)
  qed
qed

lemma takeWhile_all: "list_all P xs \<Longrightarrow> takeWhile P xs = xs"
  by (induction xs) auto

lemma generateReport_char:
  "generateReport h (this, w) =
     (if writeFileSync_ok h (outputDir this) (report_filename h)
      then (Inr \<lparr>report_timestamp = report_iso h,
                 totalRecordsProcessed = processedCount this,
                 outputDirectory = outputDir this,
                 status = ''SUCCESS'',
                 executionTime = report_ms h\<rparr>,
            w @ [Report_file (outputDir this) (report_filename h)
                   \<lparr>report_timestamp = report_iso h,
                    totalRecordsProcessed = processedCount this,
                    outputDirectory = outputDir this,
                    status = ''SUCCESS'',
                    executionTime = report_ms h\<rparr>])
      else (Inl IOError, w))"
  by (simp add: generateReport_def Let_def)

text \<open>What a run leaves, whatever its outcome.\<close>

lemma runAutomation_emitted:
  assumes "runAutomation h (this, w) = Some (r, this', w')"
  shows "this' = this\<lparr>processedCount := processedCount this + records (emitted h this)\<rparr>"
    and "w' = w @ map (csv_entry h (outputDir this)) (emitted h this) @
           (case r of Inl e \<Rightarrow> [] | Inr rep \<Rightarrow> [Report_file (outputDir this) (report_filename h) rep])"
    and "\<And>rep. r = Inr rep \<Longrightarrow> totalRecordsProcessed rep = processedCount this'"
  using assms
  by (auto simp: runAutomation_def emitted_def organizeData_buckets generateCSVOutput_char
      generateReport_char records_Nil Let_def
      split: if_splits sum.splits option.splits)

lemma runAutomation_report_all:
  assumes "runAutomation h (this, w) = Some (Inr rep, this', w')"
    and "readInputFiles h = Inr rows" and "DataRows_of rows = Some data"
  shows "emitted h this = buckets (cleanData data)" and "host_ok h this data"
  using assms
  by (auto simp: runAutomation_def emitted_def organizeData_buckets generateCSVOutput_char
      generateReport_char Let_def takeWhile_all host_ok_def list_all_iff
      split: if_splits sum.splits option.splits)

lemma runAutomation_ok:
  assumes "host_ok h this data"
    and "readInputFiles h = Inr rows" and "DataRows_of rows = Some data"
  shows "\<exists>rep this' w'. runAutomation h (this, w) = Some (Inr rep, this', w')"
  using assms
  by (simp add: runAutomation_def organizeData_buckets generateCSVOutput_char
      generateReport_char Let_def host_ok_def)

subsection \<open>Two runs evaluated\<close>

lemma example_read: "readInputFiles example_host = Inr team_parsed"
  by (simp add: readInputFiles_def example_host_def endsWith_def parseData_def
      example_JSON_parse_def team_json_def slash_json_def items_of_def make_row_def js_or_def
      example_now_def team_parsed_def parsed_row_def)

lemma example_typed: "DataRows_of team_parsed = Some team_rows"
  by (simp add: DataRow_of_def team_parsed_def team_rows_def parsed_row_def)

lemma example_clean:
  "cleanData team_rows =
     [example_row ''1'' ''Alice2'' ''Team'', example_row ''2'' ''Bob'' ''Team'']"
  by (simp add: team_rows_def cleanData_def unique_def Map_values_def new_Map_def
      truthy_def js_and_def)

lemma example_ok: "host_ok example_host this data"
  by (simp add: host_ok_def example_host_def csv_ok_def list_all_iff)

lemma slash_read: "readInputFiles slash_host = Inr slash_parsed"
  by (simp add: readInputFiles_def slash_host_def example_host_def endsWith_def parseData_def
      example_JSON_parse_def team_json_def slash_json_def items_of_def make_row_def js_or_def
      example_now_def slash_parsed_def parsed_row_def)

lemma slash_typed: "DataRows_of slash_parsed = Some slash_rows"
  by (simp add: DataRow_of_def slash_parsed_def slash_rows_def parsed_row_def)

lemma slash_clean: "cleanData slash_rows = slash_rows"
  by (simp add: slash_rows_def cleanData_def unique_def Map_values_def new_Map_def
      truthy_def js_and_def)

lemma slash_emitted:
  "emitted slash_host automationBot = [(''Ok'', [example_row ''1'' ''Ann'' ''Ok''])]"
  by (simp add: emitted_def slash_read slash_typed slash_clean)
    (simp add: slash_host_def example_host_def slash_rows_def buckets_def csv_ok_def
      csv_filename_def example_toLowerCase_def)

lemma example_emitted:
  "emitted example_host this =
     [(''Team'', [example_row ''1'' ''Alice2'' ''Team'', example_row ''2'' ''Bob'' ''Team''])]"
  by (simp add: emitted_def example_read example_typed example_clean)
    (simp add: example_host_def buckets_def csv_ok_def)

text \<open>
  The run on the file with the category \<^verbatim>\<open>A/B\<close>: the bucket \<^verbatim>\<open>Ok\<close> is written
  and counted, the write of the second bucket throws, and the run ends with a
  count of 1 and no report, where the cleaned rows are 2.
\<close>

lemma slash_run:
  "runAutomation slash_host (automationBot, []) =
     Some (Inl IOError, automationBot\<lparr>processedCount := 1\<rparr>,
           [CSV_file ''./data/output'' ''ok_1764757800000.csv''
              (convertToCSV [example_row ''1'' ''Ann'' ''Ok''])])"
  by (simp add: runAutomation_def slash_read slash_typed slash_clean organizeData_buckets)
    (simp add: slash_host_def example_host_def slash_rows_def buckets_def
      csv_filename_def example_toLowerCase_def automationBot_def new_CSVAutomationBot_def)

subsection \<open>The claims on the running total\<close>

text \<open>
  C5: take a run started with a running total of zero, on rows whose id, name and
  category are strings. When \<open>generateCSVOutput\<close> gets across all the buckets, it
  has written one file per bucket and \<open>processedCount\<close> is the number of records of
  the cleaned sequence. When the run returns a report, its
  \<open>totalRecordsProcessed\<close> is that number, and the files written are those of all
  the buckets and the report. On a host whose calls of the file system succeed, the
  run does return such a report.
\<close>

theorem generateCSVOutput_total:
  assumes "processedCount this = 0"
    and "readInputFiles h = Inr rows" and "DataRows_of rows = Some data"
  shows "(\<forall>this' w'.
            generateCSVOutput h (buckets (cleanData data)) (this, w) = (None, this', w') \<longrightarrow>
              processedCount this' = length (cleanData data) \<and>
              w' = w @ map (csv_entry h (outputDir this)) (buckets (cleanData data))) \<and>
         (\<forall>rep this' w'.
            runAutomation h (this, w) = Some (Inr rep, this', w') \<longrightarrow>
              totalRecordsProcessed rep = length (cleanData data) \<and>
              processedCount this' = length (cleanData data) \<and>
              w' = w @ map (csv_entry h (outputDir this)) (buckets (cleanData data)) @
                   [Report_file (outputDir this) (report_filename h) rep]) \<and>
         (host_ok h this data \<longrightarrow>
            (\<exists>rep this' w'.
               runAutomation h (this, w) = Some (Inr rep, this', w') \<and>
               totalRecordsProcessed rep = length (cleanData data) \<and>
               processedCount this' = length (cleanData data) \<and>
               w' = w @ map (csv_entry h (outputDir this)) (buckets (cleanData data)) @
                    [Report_file (outputDir this) (report_filename h) rep]))"
proof -
  have gen: "processedCount this' = length (cleanData data) \<and>
      w' = w @ map (csv_entry h (outputDir this)) (buckets (cleanData data))"
    if g: "generateCSVOutput h (buckets (cleanData data)) (this, w) = (None, this', w')"
    for this' w'
  proof -
    from g have all: "list_all (csv_ok h (outputDir this)) (buckets (cleanData data))"
      by (simp add: generateCSVOutput_char split: if_splits)
    from g assms(1) show ?thesis
      by (auto simp: generateCSVOutput_char takeWhile_all [OF all] records_buckets)
  qed
  have run: "totalRecordsProcessed rep = length (cleanData data) \<and>
      processedCount this' = length (cleanData data) \<and>
      w' = w @ map (csv_entry h (outputDir this)) (buckets (cleanData data)) @
           [Report_file (outputDir this) (report_filename h) rep]"
    if r: "runAutomation h (this, w) = Some (Inr rep, this', w')" for rep this' w'
  proof -
    note e = runAutomation_report_all(1) [OF r assms(2,3)]
    from runAutomation_emitted(1) [OF r] assms(1)
    have c: "processedCount this' = length (cleanData data)"
      by (simp add: e records_buckets)
    from runAutomation_emitted(3) [OF r refl] c
    have t: "totalRecordsProcessed rep = length (cleanData data)" by simp
    from runAutomation_emitted(2) [OF r]
    have "w' = w @ map (csv_entry h (outputDir this)) (buckets (cleanData data)) @
        [Report_file (outputDir this) (report_filename h) rep]"
      by (simp add: e)
    with c t show ?thesis by simp
  qed
  have ok: "\<exists>rep this' w'.
      runAutomation h (this, w) = Some (Inr rep, this', w') \<and>
      totalRecordsProcessed rep = length (cleanData data) \<and>
      processedCount this' = length (cleanData data) \<and>
      w' = w @ map (csv_entry h (outputDir this)) (buckets (cleanData data)) @
           [Report_file (outputDir this) (report_filename h) rep]"
    if "host_ok h this data"
  proof -
    from runAutomation_ok [OF that assms(2,3)] obtain rep this' w' where
      r: "runAutomation h (this, w) = Some (Inr rep, this', w')" by blast
    with run [OF r] show ?thesis by blast
  qed
  from gen run ok show ?thesis by blast
qed

text \<open>The scenario of three rows with one duplicate id: the report counts two.\<close>

theorem generateCSVOutput_total_witness:
  "processedCount automationBot = 0 \<and>
   readInputFiles example_host = Inr team_parsed \<and>
   DataRows_of team_parsed = Some team_rows \<and>
   host_ok example_host automationBot team_rows \<and>
   (\<exists>rep this' w'.
      runAutomation example_host (automationBot, []) = Some (Inr rep, this', w') \<and>
      totalRecordsProcessed rep = 2 \<and> processedCount this' = 2 \<and>
      w' = [CSV_file ''./data/output'' ''team_1764757800000.csv''
              (convertToCSV [example_row ''1'' ''Alice2'' ''Team'',
                             example_row ''2'' ''Bob'' ''Team'']),
            Report_file ''./data/output'' ''report_1764757800000.json'' rep])"
proof -
  have z: "processedCount automationBot = 0"
    by (simp add: automationBot_def new_CSVAutomationBot_def)
  note t = generateCSVOutput_total [OF z example_read example_typed, of "[]"]
  from t example_ok obtain rep this' w' where
    run: "runAutomation example_host (automationBot, []) = Some (Inr rep, this', w')"
    by blast
  with t have "totalRecordsProcessed rep = 2 \<and> processedCount this' = 2 \<and>
      w' = [CSV_file ''./data/output'' ''team_1764757800000.csv''
              (convertToCSV [example_row ''1'' ''Alice2'' ''Team'',
                             example_row ''2'' ''Bob'' ''Team'']),
            Report_file ''./data/output'' ''report_1764757800000.json'' rep]"
    by (simp add: example_clean buckets_def csv_entry_def csv_filename_def report_filename_def
        example_host_def example_toLowerCase_def automationBot_def new_CSVAutomationBot_def)
  with run z example_read example_typed example_ok show ?thesis by blast
qed

text \<open>
  C10: \<open>processedCount\<close> is 0 in a new bot, which the exported singleton is.
  \<open>generateCSVOutput\<close> never lowers it, and a call of \<open>runAutomation\<close>, whatever
  its outcome, leaves it increased by the number of records in the files that the
  call has written, never reset. So when a second call on the singleton returns a
  report, its \<open>totalRecordsProcessed\<close> is the number of records emitted in both
  calls; for a call that returns a report, the records emitted are those of the
  cleaned sequence.
\<close>

theorem processedCount_never_reset:
  assumes "runAutomation h1 (automationBot, w) = Some (r1, this1, w1)"
    and "runAutomation h2 (this1, w1) = Some (Inr rep2, this2, w2)"
  shows "processedCount automationBot = 0 \<and>
         automationBot = new_CSVAutomationBot \<and>
         processedCount this1 = records (emitted h1 automationBot) \<and>
         w1 = w @ map (csv_entry h1 (outputDir automationBot)) (emitted h1 automationBot) @
              (case r1 of Inl e \<Rightarrow> []
               | Inr rep1 \<Rightarrow> [Report_file (outputDir automationBot) (report_filename h1) rep1]) \<and>
         processedCount this2 =
           records (emitted h1 automationBot) + records (emitted h2 this1) \<and>
         totalRecordsProcessed rep2 =
           records (emitted h1 automationBot) + records (emitted h2 this1) \<and>
         w2 = w1 @ map (csv_entry h2 (outputDir this1)) (emitted h2 this1) @
              [Report_file (outputDir this1) (report_filename h2) rep2] \<and>
         (\<forall>h organized this w.
            processedCount this \<le>
              processedCount (fst (snd (generateCSVOutput h organized (this, w))))) \<and>
         (\<forall>h this w r this' w'.
            runAutomation h (this, w) = Some (r, this', w') \<longrightarrow>
              processedCount this' = processedCount this + records (emitted h this)) \<and>
         (\<forall>h this w rep this' w' rows data.
            runAutomation h (this, w) = Some (Inr rep, this', w') \<and>
            readInputFiles h = Inr rows \<and> DataRows_of rows = Some data \<longrightarrow>
              records (emitted h this) = length (cleanData data))"
proof -
  have z: "processedCount automationBot = 0"
    by (simp add: automationBot_def new_CSVAutomationBot_def)
  note a = runAutomation_emitted [OF assms(1)]
  note b = runAutomation_emitted [OF assms(2)]
  from a(1) z have c1: "processedCount this1 = records (emitted h1 automationBot)" by simp
  from b(1) c1 have c2: "processedCount this2 =
      records (emitted h1 automationBot) + records (emitted h2 this1)" by simp
  from b(3) [OF refl] c2 have t2: "totalRecordsProcessed rep2 =
      records (emitted h1 automationBot) + records (emitted h2 this1)" by simp
  have g: "processedCount this \<le>
      processedCount (fst (snd (generateCSVOutput h organized (this, w))))"
    for h organized and this :: CSVAutomationBot and w
    by (simp add: generateCSVOutput_char)
  have r: "runAutomation h (this, w) = Some (r, this', w') \<longrightarrow>
      processedCount this' = processedCount this + records (emitted h this)"
    for h this w r this' w'
    using runAutomation_emitted(1) [of h this w r this' w'] by auto
  have e: "runAutomation h (this, w) = Some (Inr rep, this', w') \<and>
      readInputFiles h = Inr rows \<and> DataRows_of rows = Some data \<longrightarrow>
      records (emitted h this) = length (cleanData data)"
    for h this w rep this' w' rows data
    using runAutomation_report_all(1) [of h this w rep this' w' rows data]
    by (auto simp: records_buckets)
  have d: "automationBot = new_CSVAutomationBot" by (simp add: automationBot_def)
  from g have g': "\<forall>h organized this w. processedCount this \<le>
      processedCount (fst (snd (generateCSVOutput h organized (this, w))))" by blast
  from r have r': "\<forall>h this w r this' w'.
      runAutomation h (this, w) = Some (r, this', w') \<longrightarrow>
      processedCount this' = processedCount this + records (emitted h this)" by blast
  from e have e': "\<forall>h this w rep this' w' rows data.
      runAutomation h (this, w) = Some (Inr rep, this', w') \<and>
      readInputFiles h = Inr rows \<and> DataRows_of rows = Some data \<longrightarrow>
      records (emitted h this) = length (cleanData data)" by blast
  from b(2) have l2: "w2 = w1 @ map (csv_entry h2 (outputDir this1)) (emitted h2 this1) @
      [Report_file (outputDir this1) (report_filename h2) rep2]" by simp
  show ?thesis
    by (intro conjI) (rule z d c1 a(2) c2 t2 l2 g' r' e')+
qed

text \<open>
  A first run that emits one record before a write fails, then a second run that
  emits two: the report of the second counts three.
\<close>

theorem processedCount_never_reset_witness:
  "runAutomation slash_host (automationBot, []) =
     Some (Inl IOError, automationBot\<lparr>processedCount := 1\<rparr>,
           [CSV_file ''./data/output'' ''ok_1764757800000.csv''
              (convertToCSV [example_row ''1'' ''Ann'' ''Ok''])]) \<and>
   (\<exists>rep2 this2 w2.
      runAutomation example_host
        (automationBot\<lparr>processedCount := 1\<rparr>,
         [CSV_file ''./data/output'' ''ok_1764757800000.csv''
            (convertToCSV [example_row ''1'' ''Ann'' ''Ok''])]) =
        Some (Inr rep2, this2, w2) \<and>
      totalRecordsProcessed rep2 = 3 \<and> processedCount this2 = 3)"
proof -
  let ?s1 = "(automationBot\<lparr>processedCount := 1\<rparr>,
         [CSV_file ''./data/output'' ''ok_1764757800000.csv''
            (convertToCSV [example_row ''1'' ''Ann'' ''Ok''])])"
  from runAutomation_ok [OF example_ok example_read example_typed]
  obtain rep2 this2 w2 where
    run2: "runAutomation example_host ?s1 = Some (Inr rep2, this2, w2)"
    by blast
  from processedCount_never_reset [OF slash_run run2]
  have "totalRecordsProcessed rep2 = 3 \<and> processedCount this2 = 3"
    by (simp add: slash_emitted example_emitted records_def)
  with slash_run run2 show ?thesis by blast
qed

end
